theory Spec2Isabelle
  imports Main "HOL-Library.Multiset" "HOL-Library.Product_Lexorder" "HOL-Library.Sublist"
begin

section \<open>Strings and annotated tokens\<close>

text \<open>
  A Python \<open>str\<close> is a sequence of Unicode code points, and \<open>len\<close> counts code points.
  The passages are Chinese text, so a string is modelled as the list of its code points.
  The part-of-speech and dependency tags of spaCy are ASCII strings and stay HOL strings.
\<close>

type_synonym ustr = "nat list"

definition ascii :: "string \<Rightarrow> ustr" where
  "ascii s = map of_char s"

text \<open>
  A spaCy token, with the attributes \<open>extract_morphemes\<close> reads: \<open>token.text\<close>,
  \<open>token.pos_\<close>, \<open>token.dep_\<close>, \<open>token.head.text\<close>, \<open>token.is_punct\<close>,
  \<open>token.is_space\<close>, and of \<open>token.ancestors\<close> the \<open>pos_\<close> of each ancestor, in order.
\<close>

record token =
  tok_text :: ustr
  pos :: string
  dep :: string
  head_text :: ustr
  is_punct :: bool
  is_space :: bool
  ancestors :: "string list"

text \<open>The dictionary \<open>compound\<close> built at lines 59-64, with its four keys.\<close>

record compound =
  c_text :: ustr
  c_pos :: string
  c_dep :: string
  c_head :: ustr

section \<open>Morpheme selection: \<open>extract_morphemes\<close>\<close>

subsection \<open>The filter loop (lines 49-70)\<close>

definition mk_compound :: "token \<Rightarrow> compound" where
  "mk_compound t =
     \<lparr>c_text = tok_text t, c_pos = pos t, c_dep = dep t, c_head = head_text t\<rparr>"

definition filter_step :: "compound list \<Rightarrow> token \<Rightarrow> compound list" where
  "filter_step compounds t =
     (if pos t \<in> set [''NOUN'', ''VERB'', ''ADJ'']
         \<and> length (tok_text t) \<ge> 2
         \<and> \<not> is_punct t
         \<and> \<not> is_space t
      then
        (let c = mk_compound t in
         if c_text c \<notin> set (map c_text compounds)
            \<and> (c_dep c \<in> set [''nsubj'', ''dobj'', ''compound'']
                \<or> list_ex (\<lambda>a. a = ''NOUN'') (ancestors t))
         then compounds @ [c]
         else compounds)
      else compounds)"

fun filter_loop :: "token list \<Rightarrow> compound list \<Rightarrow> compound list" where
  "filter_loop [] compounds = compounds"
| "filter_loop (t # ts) compounds = filter_loop ts (filter_step compounds t)"

definition filter_stage :: "token list \<Rightarrow> compound list" where
  "filter_stage doc = filter_loop doc []"

text \<open>
  The filter stage in the words of the specification: the conditions (a) to (e) under
  which a token is accepted, given the candidates accepted before it.
\<close>

definition is_candidate_spec :: "compound list \<Rightarrow> token \<Rightarrow> bool" where
  "is_candidate_spec accepted t \<longleftrightarrow>
     pos t \<in> {''NOUN'', ''VERB'', ''ADJ''}
     \<and> 2 \<le> length (tok_text t)
     \<and> \<not> is_punct t \<and> \<not> is_space t
     \<and> tok_text t \<notin> c_text ` set accepted
     \<and> (dep t \<in> {''nsubj'', ''dobj'', ''compound''} \<or> ''NOUN'' \<in> set (ancestors t))"

subsection \<open>The ranking (lines 72-79)\<close>

text \<open>
  The sort key is the tuple \<open>(pos == "NOUN", len(text), dep in ["nsubj", "dobj"])\<close>;
  Python compares tuples lexicographically and \<open>False < True\<close>. \<open>list.sort\<close> is stable,
  and with \<open>reverse=True\<close> it reverses the list, sorts it stably in ascending order and
  reverses the result, which is what keeps equal keys in their original order.
\<close>

definition rank_key :: "compound \<Rightarrow> bool \<times> nat \<times> bool" where
  "rank_key x = (c_pos x = ''NOUN'', length (c_text x), c_dep x \<in> set [''nsubj'', ''dobj''])"

definition sort_reverse :: "compound list \<Rightarrow> compound list" where
  "sort_reverse compounds = rev (sort_key rank_key (rev compounds))"

definition ranked_morphemes :: "token list \<Rightarrow> ustr list" where
  "ranked_morphemes doc = map c_text (sort_reverse (filter_stage doc))"

text \<open>The ranking in the words of the specification: noun first, then length, then core role.\<close>

definition is_noun :: "compound \<Rightarrow> bool" where
  "is_noun x \<longleftrightarrow> c_pos x = ''NOUN''"

definition is_core :: "compound \<Rightarrow> bool" where
  "is_core x \<longleftrightarrow> c_dep x = ''nsubj'' \<or> c_dep x = ''dobj''"

definition outranks :: "compound \<Rightarrow> compound \<Rightarrow> bool" where
  "outranks a b \<longleftrightarrow>
     (is_noun a \<and> \<not> is_noun b)
     \<or> (is_noun a = is_noun b \<and> length (c_text a) > length (c_text b))
     \<or> (is_noun a = is_noun b \<and> length (c_text a) = length (c_text b)
          \<and> is_core a \<and> \<not> is_core b)"

definition same_rank :: "compound \<Rightarrow> compound \<Rightarrow> bool" where
  "same_rank a b \<longleftrightarrow>
     is_noun a = is_noun b \<and> length (c_text a) = length (c_text b) \<and> is_core a = is_core b"

text \<open>The three candidates of the ranking example: a noun subject of length 2, a verb of
  length 2 in another role, a noun of length 3 in another role.\<close>

definition xuexiao :: compound where
  "xuexiao = \<lparr>c_text = [23398, 26657], c_pos = ''NOUN'', c_dep = ''nsubj'',
               c_head = [36305, 27493]\<rparr>"

definition paobu :: compound where
  "paobu = \<lparr>c_text = [36305, 27493], c_pos = ''VERB'', c_dep = ''ROOT'',
             c_head = [36305, 27493]\<rparr>"

definition yanjiusuo :: compound where
  "yanjiusuo = \<lparr>c_text = [30740, 31350, 25152], c_pos = ''NOUN'', c_dep = ''conj'',
                 c_head = [23398, 26657]\<rparr>"

subsection \<open>Sampling (lines 81-85)\<close>

text \<open>
  \<open>random.sample(population, k)\<close> of the Python standard library raises \<open>ValueError\<close>
  unless \<open>0 <= k <= len(population)\<close>. For a population of at most 21 elements (here at
  most 10) it copies the population into \<open>pool\<close> and runs
  \<^verbatim>\<open>for i in range(k): j = randbelow(n - i); result[i] = pool[j]; pool[j] = pool[n - i - 1]\<close>.
  The random generator is a parameter: \<open>rnd i\<close> is the raw value behind the \<open>i\<close>-th draw,
  and \<open>randbelow(m)\<close> delivers \<open>rnd i mod m\<close>, so every outcome below \<open>m\<close> is possible.
\<close>

datatype py_error = ValueError

fun sample_loop :: "(nat \<Rightarrow> nat) \<Rightarrow> 'a list \<Rightarrow> nat \<Rightarrow> nat \<Rightarrow> nat \<Rightarrow> 'a list" where
  "sample_loop rnd pool n i 0 = []"
| "sample_loop rnd pool n i (Suc r) =
     (let j = rnd i mod (n - i)
      in pool ! j # sample_loop rnd (pool[j := pool ! (n - i - 1)]) n (Suc i) r)"

definition sample :: "(nat \<Rightarrow> nat) \<Rightarrow> 'a list \<Rightarrow> int \<Rightarrow> py_error + 'a list" where
  "sample rnd population k =
     (let n = length population in
      if \<not> (0 \<le> k \<and> k \<le> int n) then Inl ValueError
      else Inr (sample_loop rnd population n 0 (nat k)))"

text \<open>The body of \<open>extract_morphemes\<close> after \<open>doc = nlp(text)\<close>.\<close>

definition select_morphemes :: "(nat \<Rightarrow> nat) \<Rightarrow> token list \<Rightarrow> int \<Rightarrow> py_error + ustr list" where
  "select_morphemes rnd doc num_morphemes =
     (let morphemes = ranked_morphemes doc in
      if int (length morphemes) < num_morphemes then Inr morphemes
      else sample rnd (take 10 morphemes) num_morphemes)"

section \<open>Strings of the standard library\<close>

text \<open>\<open>str.strip()\<close> removes leading and trailing characters for which \<open>str.isspace\<close> holds.\<close>

definition py_isspace :: "nat \<Rightarrow> bool" where
  "py_isspace c \<longleftrightarrow>
     c \<in> set [9, 10, 11, 12, 13, 28, 29, 30, 31, 32, 133, 160, 5760, 8192, 8193, 8194, 8195,
              8196, 8197, 8198, 8199, 8200, 8201, 8202, 8232, 8233, 8239, 8287, 12288]"

definition strip :: "ustr \<Rightarrow> ustr" where
  "strip s = rev (dropWhile py_isspace (rev (dropWhile py_isspace s)))"

text \<open>\<open>s.split(sep)\<close> for a separator of one character: one field more than separators.\<close>

fun split_sep :: "nat \<Rightarrow> ustr \<Rightarrow> ustr list" where
  "split_sep sep [] = [[]]"
| "split_sep sep (c # cs) =
     (if c = sep then [] # split_sep sep cs
      else (case split_sep sep cs of
              [] \<Rightarrow> [[c]]
            | f # fs \<Rightarrow> (c # f) # fs))"

text \<open>
  \<open>s.replace(old, new)\<close> replaces the occurrences of \<open>old\<close> found from left to right,
  each search starting after the previous occurrence; an empty \<open>old\<close> matches before
  every character and at the end. \<open>s.count(old)\<close> counts the same occurrences.
\<close>

function replace_scan :: "'a list \<Rightarrow> 'a list \<Rightarrow> 'a list \<Rightarrow> 'a list" where
  "replace_scan old new [] = []"
| "replace_scan old new (c # cs) =
     (if prefix old (c # cs) then new @ replace_scan old new (drop (length old - 1) cs)
      else c # replace_scan old new cs)"
  by pat_completeness auto
termination
  by (relation "measure (\<lambda>(old, new, s). length s)") auto

definition replace :: "'a list \<Rightarrow> 'a list \<Rightarrow> 'a list \<Rightarrow> 'a list" where
  "replace s old new =
     (if old = [] then new @ concat (map (\<lambda>c. c # new) s) else replace_scan old new s)"

function count_scan :: "'a list \<Rightarrow> 'a list \<Rightarrow> nat" where
  "count_scan old [] = 0"
| "count_scan old (c # cs) =
     (if prefix old (c # cs) then Suc (count_scan old (drop (length old - 1) cs))
      else count_scan old cs)"
  by pat_completeness auto
termination
  by (relation "measure (\<lambda>(old, s). length s)") auto

definition count_py :: "'a list \<Rightarrow> 'a list \<Rightarrow> nat" where
  "count_py s old = (if old = [] then Suc (length s) else count_scan old s)"

text \<open>The decimal digits of \<open>i\<close>, as the f-string \<open>f" ({i}) "\<close> formats the index.\<close>

function fmt_nat :: "nat \<Rightarrow> ustr" where
  "fmt_nat n = (if n < 10 then [48 + n] else fmt_nat (n div 10) @ [48 + n mod 10])"
  by pat_completeness auto
termination
  by (relation "measure id") auto

declare fmt_nat.simps [simp del]

definition placeholder :: "nat \<Rightarrow> ustr" where
  "placeholder i = [32, 40] @ fmt_nat i @ [41, 32]"

section \<open>The oracles\<close>

text \<open>
  The generative model, the annotation pipeline and the random generator are parameters.
  \<open>llm k instruction\<close> is the text of the response to the \<open>k\<close>-th call of
  \<open>model.generate_content\<close> in this run (counted from 0), or \<open>None\<close> when the call or the
  access to \<open>response.text\<close> raises. The state threaded through the pipeline is the log
  of the instructions sent so far. Printing is not modelled.
\<close>

record env =
  llm :: "nat \<Rightarrow> ustr \<Rightarrow> ustr option"
  nlp :: "ustr \<Rightarrow> token list"
  rng :: "nat \<Rightarrow> nat"

type_synonym llm_log = "ustr list"

definition generate_content :: "env \<Rightarrow> ustr \<Rightarrow> llm_log \<Rightarrow> ustr option \<times> llm_log" where
  "generate_content e instruction log = (llm e (length log) instruction, log @ [instruction])"

definition response_prompt :: "ustr \<Rightarrow> ustr" where
  "response_prompt prompt =
     ascii ''Please provide an informational response in Chinese about: '' @ prompt
     @ ascii ''. The response should be detailed and at least 3-4 sentences long.''"

definition generate_chinese_response :: "env \<Rightarrow> ustr \<Rightarrow> llm_log \<Rightarrow> ustr \<times> llm_log" where
  "generate_chinese_response e prompt log =
     (case generate_content e (response_prompt prompt) log of
        (Some t, log') \<Rightarrow> (strip t, log')
      | (None, log') \<Rightarrow> ([], log'))"

definition extract_morphemes :: "env \<Rightarrow> ustr \<Rightarrow> int \<Rightarrow> py_error + ustr list" where
  "extract_morphemes e txt num_morphemes = select_morphemes (rng e) (nlp e txt) num_morphemes"

definition alternatives_prompt :: "ustr \<Rightarrow> ustr" where
  "alternatives_prompt morpheme =
     ascii ''For the Chinese compound '' @ [39] @ morpheme @ [39]
     @ ascii '', generate 3 other Chinese compounds of the same length that are semantically related but have different meanings. The alternatives should be plausible in the context but incorrect. Return only the three alternatives, separated by ''
     @ [39, 124, 39] @ ascii ''. Do not include any other text.''"

definition generate_alternatives :: "env \<Rightarrow> ustr \<Rightarrow> llm_log \<Rightarrow> ustr list \<times> llm_log" where
  "generate_alternatives e morpheme log =
     (case generate_content e (alternatives_prompt morpheme) log of
        (Some t, log') \<Rightarrow> (map strip (take 3 (split_sep 124 (strip t))), log')
      | (None, log') \<Rightarrow> ([], log'))"

section \<open>Quiz assembly: \<open>create_quiz\<close>\<close>

record quiz_item =
  original_morpheme :: ustr
  alternatives :: "ustr list"

text \<open>The loop of lines 114-122 over \<open>enumerate(target_morphemes)\<close>.\<close>

fun quiz_loop ::
  "env \<Rightarrow> (nat \<times> ustr) list \<Rightarrow> quiz_item list \<Rightarrow> ustr \<Rightarrow> llm_log
     \<Rightarrow> (quiz_item list \<times> ustr) \<times> llm_log" where
  "quiz_loop e [] quiz_items masked_text log = ((quiz_items, masked_text), log)"
| "quiz_loop e ((i, morpheme) # rest) quiz_items masked_text log =
     (case generate_alternatives e morpheme log of
        (alts, log') \<Rightarrow>
          quiz_loop e rest
            (if alts \<noteq> []
             then quiz_items @ [\<lparr>original_morpheme = morpheme, alternatives = alts\<rparr>]
             else quiz_items)
            (replace masked_text morpheme (placeholder i))
            log')"

definition create_quiz ::
  "env \<Rightarrow> ustr \<Rightarrow> llm_log \<Rightarrow> (py_error + ustr \<times> quiz_item list \<times> ustr) \<times> llm_log" where
  "create_quiz e prompt log =
     (case generate_chinese_response e prompt log of
        (response, log1) \<Rightarrow>
          if response = [] then (Inr ([], [], []), log1)
          else (case extract_morphemes e response 10 of
                  Inl err \<Rightarrow> (Inl err, log1)
                | Inr target_morphemes \<Rightarrow>
                    (case quiz_loop e (enumerate 0 target_morphemes) [] response log1 of
                       ((quiz_items, masked_text), log2) \<Rightarrow>
                         (Inr (response, quiz_items, masked_text), log2))))"

section \<open>Presenting the answers (lines 142-143)\<close>

text \<open>
  \<open>random.shuffle(x)\<close> exchanges in place:
  \<^verbatim>\<open>for i in reversed(range(1, len(x))): j = randbelow(i + 1); x[i], x[j] = x[j], x[i]\<close>.
  \<open>d\<close> counts the draws made so far.
\<close>

fun shuffle_loop :: "(nat \<Rightarrow> nat) \<Rightarrow> nat \<Rightarrow> nat \<Rightarrow> 'a list \<Rightarrow> 'a list" where
  "shuffle_loop rnd d 0 x = x"
| "shuffle_loop rnd d (Suc i) x =
     (let j = rnd d mod (Suc i + 1)
      in shuffle_loop rnd (Suc d) i (x[Suc i := x ! j, j := x ! Suc i]))"

definition shuffle :: "(nat \<Rightarrow> nat) \<Rightarrow> 'a list \<Rightarrow> 'a list" where
  "shuffle rnd x = shuffle_loop rnd 0 (length x - 1) x"

text \<open>
  Python lists are mutable objects and the item dictionary holds a reference to its list
  of alternatives. The store maps addresses to list objects; addresses from \<open>lim\<close> on are
  free. \<open>item["alternatives"] + [item["original_morpheme"]]\<close> allocates a new list, and
  \<open>random.shuffle\<close> overwrites the list at the address it is given.
\<close>

type_synonym addr = nat

record store =
  cells :: "addr \<Rightarrow> ustr list option"
  lim :: addr

record item_ref =
  ref_original_morpheme :: ustr
  ref_alternatives :: addr

definition list_add :: "addr \<Rightarrow> ustr list \<Rightarrow> store \<Rightarrow> (addr \<times> store) option" where
  "list_add a ys h =
     (case cells h a of
        None \<Rightarrow> None
      | Some xs \<Rightarrow> Some (lim h, \<lparr>cells = (cells h)(lim h \<mapsto> xs @ ys), lim = Suc (lim h)\<rparr>))"

definition random_shuffle :: "(nat \<Rightarrow> nat) \<Rightarrow> addr \<Rightarrow> store \<Rightarrow> store option" where
  "random_shuffle rnd a h =
     (case cells h a of
        None \<Rightarrow> None
      | Some xs \<Rightarrow> Some (h\<lparr>cells := (cells h)(a \<mapsto> shuffle rnd xs)\<rparr>))"

definition present :: "(nat \<Rightarrow> nat) \<Rightarrow> item_ref \<Rightarrow> store \<Rightarrow> (ustr list \<times> store) option" where
  "present rnd item h =
     (case list_add (ref_alternatives item) [ref_original_morpheme item] h of
        None \<Rightarrow> None
      | Some (joined_answers, h1) \<Rightarrow>
          (case random_shuffle rnd joined_answers h1 of
             None \<Rightarrow> None
           | Some h2 \<Rightarrow>
               (case cells h2 joined_answers of
                  None \<Rightarrow> None
                | Some answers \<Rightarrow> Some (answers, h2))))"

section \<open>The pipeline in closed form\<close>

text \<open>
  The masking in the words of the specification: for each processed morpheme, in
  processing order, every occurrence of its text in the text masked so far is replaced
  by the placeholder of its index.
\<close>

fun mask_all :: "(nat \<times> ustr) list \<Rightarrow> ustr \<Rightarrow> ustr" where
  "mask_all [] s = s"
| "mask_all ((i, m) # rest) s = mask_all rest (replace s m (placeholder i))"

text \<open>What the \<open>k\<close>-th call of the model yields as passage and as alternatives.\<close>

definition passage_at :: "env \<Rightarrow> nat \<Rightarrow> ustr \<Rightarrow> ustr" where
  "passage_at e k prompt =
     (case llm e k (response_prompt prompt) of None \<Rightarrow> [] | Some t \<Rightarrow> strip t)"

definition alternatives_at :: "env \<Rightarrow> nat \<Rightarrow> ustr \<Rightarrow> ustr list" where
  "alternatives_at e k morpheme =
     (case llm e k (alternatives_prompt morpheme) of
        None \<Rightarrow> []
      | Some t \<Rightarrow> map strip (take 3 (split_sep 124 (strip t))))"

text \<open>The quiz items of a list of morphemes whose first distractor call is call \<open>k\<close>.\<close>

fun items_from :: "env \<Rightarrow> nat \<Rightarrow> ustr list \<Rightarrow> quiz_item list" where
  "items_from e k [] = []"
| "items_from e k (m # ms) =
     (if alternatives_at e k m \<noteq> []
      then [\<lparr>original_morpheme = m, alternatives = alternatives_at e k m\<rparr>]
      else [])
     @ items_from e (Suc k) ms"

section \<open>Example inputs\<close>

text \<open>A noun in subject role that is its own head, as the annotation of a one-word clause.\<close>

definition noun_subject :: "ustr \<Rightarrow> token" where
  "noun_subject t =
     \<lparr>tok_text = t, pos = ''NOUN'', dep = ''nsubj'', head_text = t, is_punct = False,
      is_space = False, ancestors = []\<rparr>"

text \<open>Two random generators: every raw value is 0, every raw value is 1.\<close>

definition rnd_zero :: "nat \<Rightarrow> nat" where
  "rnd_zero i = 0"

definition rnd_one :: "nat \<Rightarrow> nat" where
  "rnd_one i = 1"

definition two_tokens :: "token list" where
  "two_tokens = [noun_subject [23398, 26657], noun_subject [33590, 36947]]"

definition eleven_tokens :: "token list" where
  "eleven_tokens =
     map (\<lambda>n. noun_subject [19968 + n, 19968 + n]) [0, 1, 2, 3, 4, 5, 6, 7, 8, 9, 10]"

text \<open>
  The passage of the end-to-end scenario, its annotation reduced to the tokens that
  matter, and four models: one that answers every distractor request with three
  alternatives, one that fails on every distractor request, one that fails on the first
  distractor request only, and one that returns the morpheme itself as first alternative.
\<close>

definition tea_passage :: ustr where
  "tea_passage = [33590, 36947, 26159, 19968, 31181, 20256, 32479, 25991, 21270, 12290,
                  33590, 36947, 27880, 37325, 31036, 20202, 12290]"

definition tea_tokens :: "token list" where
  "tea_tokens = [noun_subject [33590, 36947], noun_subject [33590, 36947],
                 noun_subject [31036, 20202]]"

definition e_tea :: env where
  "e_tea = \<lparr>llm = (\<lambda>k instruction.
                      if k = 0 then Some ([32] @ tea_passage @ [10])
                      else Some [31036, 33410, 124, 32, 31036, 35980, 124, 31036, 29289, 10]),
            nlp = (\<lambda>txt. tea_tokens), rng = rnd_zero\<rparr>"

definition e_fail :: env where
  "e_fail = \<lparr>llm = (\<lambda>k instruction. if k = 0 then Some tea_passage else None),
             nlp = (\<lambda>txt. tea_tokens), rng = rnd_zero\<rparr>"

definition e_first_fails :: env where
  "e_first_fails =
     \<lparr>llm = (\<lambda>k instruction.
               if k = 0 then Some tea_passage
               else if k = 1 then None
               else Some [31036, 33410, 124, 31036, 35980, 124, 31036, 29289]),
      nlp = (\<lambda>txt. tea_tokens), rng = rnd_zero\<rparr>"

definition e_echo :: env where
  "e_echo = \<lparr>llm = (\<lambda>k instruction.
                       if k = 0 then Some tea_passage
                       else Some [33590, 36947, 124, 33590, 21494, 124, 33590, 26479]),
             nlp = (\<lambda>txt. [noun_subject [33590, 36947]]), rng = rnd_zero\<rparr>"

text \<open>A topic, a model that is down, and an annotation without any token.\<close>

definition tea_topic :: ustr where
  "tea_topic = ascii ''tea ceremonies''"

definition e_down :: env where
  "e_down = \<lparr>llm = (\<lambda>k instruction. None), nlp = (\<lambda>txt. tea_tokens), rng = rnd_zero\<rparr>"

definition e_plain :: env where
  "e_plain = \<lparr>llm = (\<lambda>k instruction. Some tea_passage), nlp = (\<lambda>txt. []), rng = rnd_zero\<rparr>"

text \<open>A store with one list of three alternatives at address 0, and the item that refers
  to it.\<close>

definition tea_store :: store where
  "tea_store =
     \<lparr>cells = (\<lambda>a. if a = 0 then Some [[33590, 33402], [33590, 21494], [33590, 26479]]
                    else None),
      lim = 1\<rparr>"

definition tea_item :: item_ref where
  "tea_item = \<lparr>ref_original_morpheme = [33590, 36947], ref_alternatives = 0\<rparr>"

text \<open>A passage with the morpheme \<open>[38899, 20048]\<close> twice, and one that also has the
  text of the placeholder of index 3 between the two.\<close>

definition music :: ustr where
  "music = [38899, 20048]"

definition music_passage :: ustr where
  "music_passage = [38899, 20048, 24456, 22909, 21548, 65292, 25105, 21916, 27426, 38899,
                    20048, 12290]"

definition music_passage_with_placeholder :: ustr where
  "music_passage_with_placeholder = [38899, 20048, 32, 40, 51, 41, 32, 38899, 20048]"

section \<open>Properties of the filter loop\<close>

lemma filter_loop_append:
  "filter_loop (ts @ us) acc = filter_loop us (filter_loop ts acc)"
  by (induction ts arbitrary: acc) simp_all

lemma filter_step_spec:
  "filter_step acc t = (if is_candidate_spec acc t then acc @ [mk_compound t] else acc)"
  by (auto simp: filter_step_def is_candidate_spec_def mk_compound_def Let_def list_ex_iff)

lemma filter_step_prefix: "prefix acc (filter_step acc t)"
  by (simp add: filter_step_spec)

lemma filter_loop_prefix: "prefix acc (filter_loop ts acc)"
proof (induction ts arbitrary: acc)
  case Nil
  show ?case by simp
next
  case (Cons t ts)
  have "prefix acc (filter_step acc t)" by (rule filter_step_prefix)
  also have "prefix (filter_step acc t) (filter_loop ts (filter_step acc t))" by (rule Cons.IH)
  finally show ?case by simp
qed

lemma filter_step_distinct:
  "distinct (map c_text acc) \<Longrightarrow> distinct (map c_text (filter_step acc t))"
  by (auto simp: filter_step_spec is_candidate_spec_def mk_compound_def)

lemma filter_loop_distinct:
  "distinct (map c_text acc) \<Longrightarrow> distinct (map c_text (filter_loop ts acc))"
  by (induction ts arbitrary: acc) (simp_all add: filter_step_distinct)

lemma filter_stage_distinct: "distinct (map c_text (filter_stage doc))"
  by (simp add: filter_stage_def filter_loop_distinct)

lemma filter_stage_snoc:
  "filter_stage (ts @ [t]) = filter_step (filter_stage ts) t"
  by (simp add: filter_stage_def filter_loop_append)

text \<open>
  Claim C5. A token is accepted by the filter stage exactly when the conditions (a) to (e)
  of the specification hold for it, relative to the candidates accepted from the tokens
  before it: the candidates of \<open>ts @ [t]\<close> are those of \<open>ts\<close>, followed by the compound of
  \<open>t\<close> if and only if \<open>t\<close> satisfies the conditions. Whatever follows \<open>t\<close> only extends the
  list, and no two candidates of a passage have the same text.
\<close>

theorem filter_stage_membership:
  "filter_stage (ts @ [t]) =
     (if is_candidate_spec (filter_stage ts) t
      then filter_stage ts @ [mk_compound t] else filter_stage ts)
   \<and> prefix (filter_stage (ts @ [t])) (filter_stage (ts @ [t] @ us))
   \<and> distinct (map c_text (filter_stage (ts @ [t] @ us)))"
proof -
  have a: "filter_stage (ts @ [t]) =
     (if is_candidate_spec (filter_stage ts) t
      then filter_stage ts @ [mk_compound t] else filter_stage ts)"
    by (simp only: filter_stage_snoc filter_step_spec)
  have "filter_stage (ts @ [t] @ us) = filter_loop us (filter_stage (ts @ [t]))"
    using filter_loop_append [of "ts @ [t]" us "[]"] by (simp add: filter_stage_def)
  then have b: "prefix (filter_stage (ts @ [t])) (filter_stage (ts @ [t] @ us))"
    by (simp add: filter_loop_prefix)
  from a b filter_stage_distinct [of "ts @ [t] @ us"] show ?thesis by blast
qed

section \<open>Properties of the ranking\<close>

lemma outranks_key: "outranks a b \<longleftrightarrow> rank_key b < rank_key a"
  by (auto simp: outranks_def rank_key_def is_noun_def is_core_def less_prod_def)

lemma same_rank_key: "same_rank a b \<longleftrightarrow> rank_key a = rank_key b"
  by (auto simp: same_rank_def rank_key_def is_noun_def is_core_def)

lemma sort_reverse_sorted: "sorted_wrt (\<lambda>a b. \<not> outranks b a) (sort_reverse cs)"
proof -
  have "sorted (map rank_key (sort_key rank_key (rev cs)))" by (rule sorted_sort_key)
  then have "sorted_wrt (\<lambda>a b. rank_key a \<le> rank_key b) (sort_key rank_key (rev cs))"
    by (simp add: sorted_map)
  then have "sorted_wrt (\<lambda>a b. rank_key b \<le> rank_key a) (sort_reverse cs)"
    by (simp add: sort_reverse_def sorted_wrt_rev)
  then show ?thesis
    by (rule sorted_wrt_mono_rel [rotated]) (simp add: outranks_key not_less)
qed

lemma sort_reverse_stable:
  "filter (\<lambda>c. same_rank c x) (sort_reverse cs) = filter (\<lambda>c. same_rank c x) cs"
proof -
  have "filter (\<lambda>c. rank_key c = rank_key x) (sort_reverse cs)
      = rev (filter (\<lambda>c. rank_key c = rank_key x) (sort_key rank_key (rev cs)))"
    by (simp add: sort_reverse_def rev_filter)
  also have "\<dots> = rev (filter (\<lambda>c. rank_key c = rank_key x) (rev cs))"
    by (simp only: sort_key_stable)
  also have "\<dots> = filter (\<lambda>c. rank_key c = rank_key x) cs"
    by (simp add: rev_filter)
  finally show ?thesis by (simp add: same_rank_key)
qed

lemma sort_reverse_mset: "mset (sort_reverse cs) = mset cs"
  by (simp add: sort_reverse_def)

lemma sort_reverse_example:
  "sort_reverse [xuexiao, paobu, yanjiusuo] = [yanjiusuo, xuexiao, paobu]"
  by (simp add: sort_reverse_def xuexiao_def paobu_def yanjiusuo_def rank_key_def
      less_eq_prod_def less_prod_def)

text \<open>
  Claim C4. The ranking is a rearrangement of the filtered candidates in which no
  candidate is followed by one that outranks it (noun before non-noun, then longer before
  shorter, then subject or direct object before other roles), and candidates of equal
  rank keep their encounter order. On the example of the specification the order is
  \<open>yanjiusuo\<close>, \<open>xuexiao\<close>, \<open>paobu\<close>.
\<close>

theorem ranking_order:
  "mset (sort_reverse cs) = mset cs
   \<and> sorted_wrt (\<lambda>a b. \<not> outranks b a) (sort_reverse cs)
   \<and> filter (\<lambda>c. same_rank c x) (sort_reverse cs) = filter (\<lambda>c. same_rank c x) cs
   \<and> sort_reverse [xuexiao, paobu, yanjiusuo] = [yanjiusuo, xuexiao, paobu]
   \<and> ranked_morphemes doc = map c_text (sort_reverse (filter_stage doc))"
  using sort_reverse_mset [of cs] sort_reverse_sorted [of cs] sort_reverse_stable [of x cs]
    sort_reverse_example
  by (simp add: ranked_morphemes_def)

section \<open>Properties of the sampling\<close>

lemma pool_vacancy:
  assumes "j < m" "m \<le> length pool"
  shows "add_mset (pool ! j) (mset (take (m - 1) (pool[j := pool ! (m - 1)])))
           = mset (take m pool)"
proof -
  obtain m' where m: "m = Suc m'" using assms(1) by (cases m) auto
  have m': "m' < length pool" using assms(2) m by simp
  have full: "mset (take m pool) = add_mset (pool ! m') (mset (take m' pool))"
    using m' by (simp add: m take_Suc_conv_app_nth)
  show ?thesis
  proof (cases "j = m'")
    case True
    then show ?thesis using full by (simp add: m)
  next
    case False
    then have j: "j < m'" using assms(1) m by simp
    then have jl: "j < length (take m' pool)" using m' by simp
    have "pool ! j \<in># mset (take m' pool)"
      using jl nth_mem [OF jl] by simp
    then show ?thesis
      using jl full by (simp add: m take_update_swap mset_update)
  qed
qed

lemma sample_loop_length: "length (sample_loop rnd pool n i r) = r"
  by (induction r arbitrary: pool i) (simp_all add: Let_def)

lemma sample_loop_mset:
  "i + r \<le> n \<Longrightarrow> n = length pool \<Longrightarrow>
     mset (sample_loop rnd pool n i r) \<subseteq># mset (take (n - i) pool)"
proof (induction r arbitrary: pool i)
  case 0
  show ?case by simp
next
  case (Suc r)
  let ?j = "rnd i mod (n - i)"
  let ?pool = "pool[?j := pool ! (n - i - 1)]"
  have pos: "0 < n - i" using Suc.prems by simp
  then have j: "?j < n - i" by simp
  have "mset (sample_loop rnd ?pool n (Suc i) r) \<subseteq># mset (take (n - Suc i) ?pool)"
    using Suc.prems by (intro Suc.IH) simp_all
  then have "add_mset (pool ! ?j) (mset (sample_loop rnd ?pool n (Suc i) r))
      \<subseteq># add_mset (pool ! ?j) (mset (take (n - i - 1) ?pool))"
    by simp
  also have "\<dots> = mset (take (n - i) pool)"
    using pool_vacancy [OF j, of pool] Suc.prems by simp
  finally show ?case by (simp add: Let_def)
qed

lemma submset_distinct:
  assumes "distinct xs" "mset ys \<subseteq># mset xs"
  shows "distinct ys"
proof -
  from assms(2) obtain C where "mset xs = mset ys + C"
    by (auto simp: mset_subset_eq_exists_conv)
  moreover obtain zs where "mset zs = C" using ex_mset by blast
  ultimately have "mset xs = mset (ys @ zs)" by simp
  then have "distinct (ys @ zs)" using assms(1) mset_eq_imp_distinct_iff by blast
  then show ?thesis by simp
qed

lemma submset_same_size:
  assumes "mset ys \<subseteq># mset xs" "length ys = length xs"
  shows "mset ys = mset xs"
proof -
  from assms(1) obtain C where C: "mset xs = mset ys + C"
    by (auto simp: mset_subset_eq_exists_conv)
  then have "size (mset xs) = size (mset ys) + size C" by simp
  then have "C = {#}" using assms(2) by simp
  then show ?thesis using C by simp
qed

lemma ranked_distinct: "distinct (ranked_morphemes doc)"
proof -
  have "mset (ranked_morphemes doc) = mset (map c_text (filter_stage doc))"
    by (simp add: ranked_morphemes_def sort_reverse_def)
  then show ?thesis
    using filter_stage_distinct [of doc] mset_eq_imp_distinct_iff by blast
qed

lemma sample_ok:
  assumes "0 \<le> k" "k \<le> int (length population)"
  shows "\<exists>ys. sample rnd population k = Inr ys \<and> length ys = nat k
           \<and> mset ys \<subseteq># mset population"
proof -
  have "mset (sample_loop rnd population (length population) 0 (nat k))
          \<subseteq># mset (take (length population - 0) population)"
    using assms by (intro sample_loop_mset) simp_all
  then show ?thesis using assms by (simp add: sample_def sample_loop_length)
qed

lemma ranked_two_tokens: "ranked_morphemes two_tokens = [[23398, 26657], [33590, 36947]]"
  by (simp add: ranked_morphemes_def sort_reverse_def filter_stage_def filter_step_def
      two_tokens_def noun_subject_def mk_compound_def rank_key_def)

lemma ranked_eleven_tokens: "length (ranked_morphemes eleven_tokens) = 11"
  by (simp add: ranked_morphemes_def sort_reverse_def filter_stage_def filter_step_def
      eleven_tokens_def noun_subject_def mk_compound_def)

lemma select_morphemes_law:
  assumes "0 \<le> k" "k \<le> 10"
  shows "\<exists>ys. select_morphemes rnd doc k = Inr ys
           \<and> (if int (length (ranked_morphemes doc)) < k
               then ys = ranked_morphemes doc \<and> ys = take 10 (ranked_morphemes doc)
               else length ys = nat k \<and> distinct ys
                    \<and> mset ys \<subseteq># mset (take 10 (ranked_morphemes doc))
                    \<and> (int (length (take 10 (ranked_morphemes doc))) = k
                         \<longrightarrow> mset ys = mset (take 10 (ranked_morphemes doc))))"
proof (cases "int (length (ranked_morphemes doc)) < k")
  case True
  then show ?thesis using assms by (simp add: select_morphemes_def)
next
  case False
  let ?pool = "take 10 (ranked_morphemes doc)"
  have "k \<le> int (length ?pool)" using False assms by simp
  from sample_ok [OF assms(1) this, of rnd] obtain ys where
    ys: "sample rnd ?pool k = Inr ys" "length ys = nat k" "mset ys \<subseteq># mset ?pool"
    by blast
  have d: "distinct ys"
    using submset_distinct [OF _ ys(3)] ranked_distinct [of doc] by simp
  have p: "int (length ?pool) = k \<longrightarrow> mset ys = mset ?pool"
    using submset_same_size [OF ys(3)] ys(2) by auto
  show ?thesis using False ys d p by (simp add: select_morphemes_def)
qed

text \<open>
  Claim C1, as the code has it. For a count between 0 and 10, \<open>select_morphemes\<close> returns a
  list and does not raise. When there are fewer ranked candidates than the count, it
  returns all of them unchanged, which is then also the pool of the top 10. Otherwise it
  returns exactly \<open>k\<close> distinct elements drawn from different positions of the pool of the
  top 10; when the pool has exactly \<open>k\<close> entries this is a rearrangement of the pool.
\<close>

theorem select_sampling_law:
  assumes "0 \<le> k" "k \<le> 10"
  shows "\<exists>ys. select_morphemes rnd doc k = Inr ys
           \<and> (if int (length (ranked_morphemes doc)) < k
               then ys = ranked_morphemes doc \<and> ys = take 10 (ranked_morphemes doc)
               else length ys = nat k \<and> distinct ys
                    \<and> mset ys \<subseteq># mset (take 10 (ranked_morphemes doc))
                    \<and> (int (length (take 10 (ranked_morphemes doc))) = k
                         \<longrightarrow> mset ys = mset (take 10 (ranked_morphemes doc))))"
  using assms by (rule select_morphemes_law)

text \<open>The sampling law at two candidates and a count of 2: both are returned.\<close>

theorem select_sampling_law_witness:
  "(0::int) \<le> 2 \<and> (2::int) \<le> 10
   \<and> (\<exists>ys. select_morphemes rnd_one two_tokens 2 = Inr ys \<and> length ys = 2 \<and> distinct ys
         \<and> mset ys = mset (ranked_morphemes two_tokens))"
  using select_sampling_law [of 2 rnd_one two_tokens]
  by (auto simp: ranked_two_tokens)

text \<open>
  Claim C1 as stated fails. With two candidates and a count of 2 the pool has at most
  \<open>maxCount\<close> entries, and the result is the pool in another order. With eleven candidates
  and a count of 11 the pool of the top 10 has at most \<open>maxCount\<close> entries, and the call
  raises \<open>ValueError\<close>.
\<close>

theorem select_sampling_counterexample:
  "take 10 (ranked_morphemes two_tokens) = [[23398, 26657], [33590, 36947]]
   \<and> select_morphemes rnd_one two_tokens 2 = Inr [[33590, 36947], [23398, 26657]]
   \<and> length (take 10 (ranked_morphemes eleven_tokens)) = 10
   \<and> select_morphemes rnd_zero eleven_tokens 11 = Inl ValueError"
  by (simp add: select_morphemes_def ranked_two_tokens ranked_eleven_tokens sample_def
      numeral_2_eq_2 rnd_one_def)

section \<open>Properties of replacing and counting\<close>

lemma prefix_replace_scan:
  "prefix x (replace_scan m ph s) \<Longrightarrow> set x \<inter> set ph = {} \<Longrightarrow> ph \<noteq> [] \<Longrightarrow> prefix x s"
proof (induction m ph s arbitrary: x rule: replace_scan.induct)
  case (1 old new)
  then show ?case by simp
next
  case (2 old new c cs)
  show ?case
  proof (cases "prefix old (c # cs)")
    case True
    with "2.prems" have p: "prefix x (new @ replace_scan old new (drop (length old - 1) cs))"
      by simp
    obtain a new' where new: "new = a # new'" using "2.prems"(3) by (cases new) auto
    have "x = []"
    proof (cases x)
      case Nil
      then show ?thesis .
    next
      case (Cons y ys)
      with p new have "y = a" by simp
      with Cons new "2.prems"(2) show ?thesis by auto
    qed
    then show ?thesis by simp
  next
    case False
    with "2.prems" have p: "prefix x (c # replace_scan old new cs)" by simp
    show ?thesis
    proof (cases x)
      case Nil
      then show ?thesis by simp
    next
      case (Cons y ys)
      with p have y: "y = c" and ys: "prefix ys (replace_scan old new cs)" by simp_all
      have "prefix ys cs"
        using "2.IH"(2) [OF False ys] "2.prems"(2,3) Cons by auto
      with y Cons show ?thesis by simp
    qed
  qed
qed

lemma sublist_skip:
  "set u \<inter> set m = {} \<Longrightarrow> m \<noteq> [] \<Longrightarrow> sublist m (u @ r) \<longleftrightarrow> sublist m r"
proof (induction u)
  case Nil
  show ?case by simp
next
  case (Cons a u)
  have "\<not> prefix m (a # u @ r)"
  proof
    assume "prefix m (a # u @ r)"
    with Cons.prems(2) have "a \<in> set m" by (cases m) auto
    with Cons.prems(1) show False by auto
  qed
  with Cons show ?case by (simp add: sublist_Cons_right)
qed

lemma no_occurrence_left:
  "m \<noteq> [] \<Longrightarrow> ph \<noteq> [] \<Longrightarrow> set m \<inter> set ph = {} \<Longrightarrow> \<not> sublist m (replace_scan m ph s)"
proof (induction m ph s rule: replace_scan.induct)
  case (1 old new)
  then show ?case by simp
next
  case (2 old new c cs)
  show ?case
  proof (cases "prefix old (c # cs)")
    case True
    have "\<not> sublist old (replace_scan old new (drop (length old - 1) cs))"
      using "2.IH"(1) [OF True] "2.prems" by simp
    moreover have "set new \<inter> set old = {}" using "2.prems"(3) by auto
    ultimately show ?thesis
      using True "2.prems"(1) by (simp add: sublist_skip)
  next
    case False
    have ih: "\<not> sublist old (replace_scan old new cs)"
      using "2.IH"(2) [OF False] "2.prems" by simp
    have "\<not> prefix old (c # replace_scan old new cs)"
    proof
      assume "prefix old (c # replace_scan old new cs)"
      then have "prefix old (replace_scan old new (c # cs))" using False by simp
      then have "prefix old (c # cs)"
        using prefix_replace_scan [OF _ "2.prems"(3) "2.prems"(2)] by blast
      with False show False by simp
    qed
    with ih False show ?thesis by (simp add: sublist_Cons_right)
  qed
qed

lemma count_scan_skip:
  "ph \<noteq> [] \<Longrightarrow> count_scan ph (ph @ r) = Suc (count_scan ph r)"
  by (cases ph) simp_all

lemma count_replace_scan:
  "m \<noteq> [] \<Longrightarrow> ph \<noteq> [] \<Longrightarrow> set s \<inter> set ph = {} \<Longrightarrow>
     count_scan ph (replace_scan m ph s) = count_scan m s"
proof (induction m ph s rule: replace_scan.induct)
  case (1 old new)
  then show ?case by simp
next
  case (2 old new c cs)
  show ?case
  proof (cases "prefix old (c # cs)")
    case True
    have "set (drop (length old - 1) cs) \<subseteq> set cs" by (rule set_drop_subset)
    then have "set (drop (length old - 1) cs) \<inter> set new = {}" using "2.prems"(3) by auto
    then have "count_scan new (replace_scan old new (drop (length old - 1) cs))
        = count_scan old (drop (length old - 1) cs)"
      using "2.IH"(1) [OF True] "2.prems" by simp
    then show ?thesis using True "2.prems"(2) by (simp add: count_scan_skip)
  next
    case False
    have ih: "count_scan new (replace_scan old new cs) = count_scan old cs"
      using "2.IH"(2) [OF False] "2.prems" by simp
    have "\<not> prefix new (c # replace_scan old new cs)"
    proof
      assume "prefix new (c # replace_scan old new cs)"
      with "2.prems"(2) have "c \<in> set new" by (cases new) auto
      with "2.prems"(3) show False by auto
    qed
    with ih False show ?thesis by simp
  qed
qed

lemma count_scan_pos_subset:
  "count_scan m s > 0 \<Longrightarrow> set m \<subseteq> set s"
proof (induction m s rule: count_scan.induct)
  case (1 old)
  then show ?case by simp
next
  case (2 old c cs)
  show ?case
  proof (cases "prefix old (c # cs)")
    case True
    then show ?thesis by (rule set_mono_prefix)
  next
    case False
    with 2 show ?thesis by auto
  qed
qed

lemma placeholder_nonempty: "placeholder i \<noteq> []"
  by (simp add: placeholder_def)

section \<open>The pipeline in closed form: proofs\<close>

lemma generate_alternatives_eq:
  "generate_alternatives e m log = (alternatives_at e (length log) m, log @ [alternatives_prompt m])"
  by (simp add: generate_alternatives_def generate_content_def alternatives_at_def
      split: option.splits)

lemma generate_chinese_response_eq:
  "generate_chinese_response e prompt log
     = (passage_at e (length log) prompt, log @ [response_prompt prompt])"
  by (simp add: generate_chinese_response_def generate_content_def passage_at_def
      split: option.splits)

lemma quiz_loop_eq:
  "quiz_loop e (enumerate i ms) items masked log
     = ((items @ items_from e (length log) ms, mask_all (enumerate i ms) masked),
        log @ map alternatives_prompt ms)"
proof (induction ms arbitrary: i items masked log)
  case Nil
  show ?case by simp
next
  case (Cons m ms)
  show ?case
    by (simp add: generate_alternatives_eq Cons.IH)
qed

lemma extract_morphemes_10: "\<exists>ms. extract_morphemes e txt 10 = Inr ms"
  using select_morphemes_law [of 10 "rng e" "nlp e txt"]
  by (auto simp: extract_morphemes_def)

lemma create_quiz_empty:
  "passage_at e (length log) prompt = [] \<Longrightarrow>
     create_quiz e prompt log = (Inr ([], [], []), log @ [response_prompt prompt])"
  by (simp add: create_quiz_def generate_chinese_response_eq)

lemma create_quiz_run:
  assumes "passage_at e (length log) prompt = response" "response \<noteq> []"
    and "extract_morphemes e response 10 = Inr ms"
  shows "create_quiz e prompt log
     = (Inr (response, items_from e (Suc (length log)) ms, mask_all (enumerate 0 ms) response),
        log @ [response_prompt prompt] @ map alternatives_prompt ms)"
  using assms by (simp add: create_quiz_def generate_chinese_response_eq quiz_loop_eq)

lemma create_quiz_cases:
  "(passage_at e (length log) prompt = []
      \<and> create_quiz e prompt log = (Inr ([], [], []), log @ [response_prompt prompt]))
   \<or> (\<exists>ms. passage_at e (length log) prompt \<noteq> []
         \<and> extract_morphemes e (passage_at e (length log) prompt) 10 = Inr ms
         \<and> create_quiz e prompt log
           = (Inr (passage_at e (length log) prompt, items_from e (Suc (length log)) ms,
                   mask_all (enumerate 0 ms) (passage_at e (length log) prompt)),
              log @ [response_prompt prompt] @ map alternatives_prompt ms))"
proof (cases "passage_at e (length log) prompt = []")
  case True
  then show ?thesis by (simp add: create_quiz_empty)
next
  case False
  obtain ms where "extract_morphemes e (passage_at e (length log) prompt) 10 = Inr ms"
    using extract_morphemes_10 by blast
  with False show ?thesis using create_quiz_run [OF refl False] by blast
qed

lemma items_from_nonempty: "it \<in> set (items_from e k ms) \<Longrightarrow> alternatives it \<noteq> []"
  by (induction ms arbitrary: k) (auto split: if_splits)

lemma items_from_source:
  "it \<in> set (items_from e k ms) \<Longrightarrow>
     \<exists>j < length ms. original_morpheme it = ms ! j
        \<and> alternatives it = alternatives_at e (k + j) (ms ! j)"
proof (induction ms arbitrary: k)
  case Nil
  then show ?case by simp
next
  case (Cons m ms)
  show ?case
  proof (cases "it \<in> set (items_from e (Suc k) ms)")
    case True
    from Cons.IH [OF this] obtain j where
      "j < length ms" "original_morpheme it = ms ! j"
      "alternatives it = alternatives_at e (Suc k + j) (ms ! j)" by blast
    then have "Suc j < length (m # ms) \<and> original_morpheme it = (m # ms) ! Suc j
        \<and> alternatives it = alternatives_at e (k + Suc j) ((m # ms) ! Suc j)" by simp
    then show ?thesis by blast
  next
    case False
    with Cons.prems have "it = \<lparr>original_morpheme = m, alternatives = alternatives_at e k m\<rparr>"
      by (auto split: if_splits)
    then have "0 < length (m # ms) \<and> original_morpheme it = (m # ms) ! 0
        \<and> alternatives it = alternatives_at e (k + 0) ((m # ms) ! 0)" by simp
    then show ?thesis by blast
  qed
qed

section \<open>Runs on the example inputs\<close>

lemma split_sep_nonempty: "split_sep sep s \<noteq> []"
  by (induction s) (auto split: list.splits)

lemma alternatives_at_cases:
  "alternatives_at e k m \<noteq> [] \<Longrightarrow>
     \<exists>t. llm e k (alternatives_prompt m) = Some t
        \<and> alternatives_at e k m = map strip (take 3 (split_sep 124 (strip t)))"
  by (auto simp: alternatives_at_def split: option.splits)

lemma alternatives_at_length: "length (alternatives_at e k m) \<le> 3"
  by (simp add: alternatives_at_def split: option.splits)

lemma tea_morphemes:
  "select_morphemes rnd_zero tea_tokens 10 = Inr [[33590, 36947], [31036, 20202]]"
  by (simp add: select_morphemes_def ranked_morphemes_def sort_reverse_def filter_stage_def
      filter_step_def tea_tokens_def noun_subject_def mk_compound_def rank_key_def)

lemma strip_tea: "strip ([32] @ tea_passage @ [10]) = tea_passage" "strip tea_passage = tea_passage"
  by (simp_all add: strip_def tea_passage_def py_isspace_def)

lemma placeholders:
  "placeholder 0 = [32, 40, 48, 41, 32]"
  "placeholder (Suc 0) = [32, 40, 49, 41, 32]"
  "placeholder 3 = [32, 40, 51, 41, 32]"
  by (simp_all add: placeholder_def fmt_nat.simps [of 0] fmt_nat.simps [of "Suc 0"]
      fmt_nat.simps [of 3])

lemma tea_masked:
  "mask_all (enumerate 0 [[33590, 36947], [31036, 20202]]) tea_passage
     = [32, 40, 48, 41, 32, 26159, 19968, 31181, 20256, 32479, 25991, 21270, 12290,
        32, 40, 48, 41, 32, 27880, 37325, 32, 40, 49, 41, 32, 12290]"
  by (simp add: tea_passage_def replace_def placeholders)

lemma run_e_fail:
  "create_quiz e_fail tea_topic []
     = (Inr (tea_passage, [],
             [32, 40, 48, 41, 32, 26159, 19968, 31181, 20256, 32479, 25991, 21270, 12290,
              32, 40, 48, 41, 32, 27880, 37325, 32, 40, 49, 41, 32, 12290]),
        [response_prompt tea_topic, alternatives_prompt [33590, 36947],
         alternatives_prompt [31036, 20202]])"
proof -
  have p: "passage_at e_fail (length ([]::llm_log)) tea_topic = tea_passage"
    by (simp add: passage_at_def e_fail_def strip_tea)
  have n: "tea_passage \<noteq> []" by (simp add: tea_passage_def)
  have m: "extract_morphemes e_fail tea_passage 10 = Inr [[33590, 36947], [31036, 20202]]"
    by (simp add: extract_morphemes_def e_fail_def tea_morphemes)
  show ?thesis
    unfolding create_quiz_run [OF p n m] tea_masked
    by (simp add: alternatives_at_def e_fail_def)
qed

section \<open>The masking\<close>

lemma masking_twice:
  assumes "m \<noteq> []" "set p \<inter> set (placeholder i) = {}" "count_py p m = 2"
  shows "count_py (replace p m (placeholder i)) (placeholder i) = 2
         \<and> \<not> sublist m (replace p m (placeholder i))"
proof -
  have ph: "placeholder i \<noteq> []" by (simp add: placeholder_def)
  have c: "count_scan m p = 2" using assms(1,3) by (simp add: count_py_def)
  then have "set m \<subseteq> set p" by (intro count_scan_pos_subset) simp
  then have d: "set m \<inter> set (placeholder i) = {}" using assms(2) by auto
  have "count_scan (placeholder i) (replace_scan m (placeholder i) p) = 2"
    using count_replace_scan [OF assms(1) ph assms(2)] c by simp
  moreover have "\<not> sublist m (replace_scan m (placeholder i) p)"
    using no_occurrence_left [OF assms(1) ph d] .
  ultimately show ?thesis using assms(1) ph by (simp add: replace_def count_py_def)
qed

lemma create_quiz_masked:
  assumes "create_quiz e prompt log = (Inr (response, quiz_items, masked_text), log')"
    and "response \<noteq> []"
  shows "\<exists>ms. extract_morphemes e response 10 = Inr ms
           \<and> masked_text = mask_all (enumerate 0 ms) response
           \<and> quiz_items = items_from e (Suc (length log)) ms
           \<and> log' = log @ [response_prompt prompt] @ map alternatives_prompt ms"
  using create_quiz_cases [of e log prompt] assms by auto

text \<open>
  Claim C3, as the code has it. The masked text of a quiz is the passage after replacing,
  for each selected morpheme in order, every occurrence of its text in the text masked so
  far by the placeholder of its index among all selected morphemes, whether or not the
  morpheme produced an item. In particular, when a passage contains none of the
  characters of the placeholder and contains a non-empty morpheme exactly twice, the
  masked text contains the placeholder exactly twice and the morpheme nowhere.
\<close>

theorem masking_semantics:
  "(create_quiz e prompt log = (Inr (response, quiz_items, masked_text), log')
      \<and> response \<noteq> [] \<longrightarrow>
      (\<exists>ms. extract_morphemes e response 10 = Inr ms
          \<and> masked_text = mask_all (enumerate 0 ms) response))
   \<and> (m \<noteq> [] \<and> set p \<inter> set (placeholder i) = {} \<and> count_py p m = 2 \<longrightarrow>
        count_py (replace p m (placeholder i)) (placeholder i) = 2
        \<and> \<not> sublist m (replace p m (placeholder i)))"
  using create_quiz_masked [of e prompt log response quiz_items masked_text log']
    masking_twice [of m p i]
  by blast

lemma run_e_tea:
  "create_quiz e_tea tea_topic []
     = (Inr (tea_passage,
             [\<lparr>original_morpheme = [33590, 36947],
               alternatives = [[31036, 33410], [31036, 35980], [31036, 29289]]\<rparr>,
              \<lparr>original_morpheme = [31036, 20202],
               alternatives = [[31036, 33410], [31036, 35980], [31036, 29289]]\<rparr>],
             [32, 40, 48, 41, 32, 26159, 19968, 31181, 20256, 32479, 25991, 21270, 12290,
              32, 40, 48, 41, 32, 27880, 37325, 32, 40, 49, 41, 32, 12290]),
        [response_prompt tea_topic, alternatives_prompt [33590, 36947],
         alternatives_prompt [31036, 20202]])"
proof -
  have p: "passage_at e_tea (length ([]::llm_log)) tea_topic = tea_passage"
    by (simp add: passage_at_def e_tea_def strip_def tea_passage_def py_isspace_def)
  have n: "tea_passage \<noteq> []" by (simp add: tea_passage_def)
  have m: "extract_morphemes e_tea tea_passage 10 = Inr [[33590, 36947], [31036, 20202]]"
    by (simp add: extract_morphemes_def e_tea_def tea_morphemes)
  show ?thesis
    unfolding create_quiz_run [OF p n m] tea_masked
    by (simp add: alternatives_at_def e_tea_def strip_def py_isspace_def)
qed

lemma music_facts:
  "music \<noteq> []" "set music_passage \<inter> set (placeholder 3) = {}" "count_py music_passage music = 2"
  by (simp_all add: music_def music_passage_def placeholders count_py_def)

text \<open>
  The masking at the passage of the end-to-end scenario, and at a passage with the
  morpheme twice and index 3.
\<close>

theorem masking_semantics_witness:
  "create_quiz e_tea tea_topic []
     = (Inr (tea_passage,
             [\<lparr>original_morpheme = [33590, 36947],
               alternatives = [[31036, 33410], [31036, 35980], [31036, 29289]]\<rparr>,
              \<lparr>original_morpheme = [31036, 20202],
               alternatives = [[31036, 33410], [31036, 35980], [31036, 29289]]\<rparr>],
             [32, 40, 48, 41, 32, 26159, 19968, 31181, 20256, 32479, 25991, 21270, 12290,
              32, 40, 48, 41, 32, 27880, 37325, 32, 40, 49, 41, 32, 12290]),
        [response_prompt tea_topic, alternatives_prompt [33590, 36947],
         alternatives_prompt [31036, 20202]])
   \<and> tea_passage \<noteq> []
   \<and> (\<exists>ms. extract_morphemes e_tea tea_passage 10 = Inr ms
         \<and> [32, 40, 48, 41, 32, 26159, 19968, 31181, 20256, 32479, 25991, 21270, 12290,
             32, 40, 48, 41, 32, 27880, 37325, 32, 40, 49, 41, 32, 12290]
            = mask_all (enumerate 0 ms) tea_passage)
   \<and> music \<noteq> [] \<and> set music_passage \<inter> set (placeholder 3) = {}
   \<and> count_py music_passage music = 2
   \<and> count_py (replace music_passage music (placeholder 3)) (placeholder 3) = 2
   \<and> \<not> sublist music (replace music_passage music (placeholder 3))"
proof -
  have n: "tea_passage \<noteq> []" by (simp add: tea_passage_def)
  note w = masking_semantics [of e_tea tea_topic "[]" tea_passage _ _ _ music music_passage 3]
  show ?thesis
    using w run_e_tea n music_facts by blast
qed

text \<open>
  Claim C3 as stated fails. A passage that holds the morpheme twice and already holds the
  text of the placeholder of index 3 contains that placeholder three times after masking.
\<close>

theorem masking_counterexample:
  "count_py music_passage_with_placeholder music = 2
   \<and> count_py (replace music_passage_with_placeholder music (placeholder 3)) (placeholder 3) = 3"
  by (simp add: music_def music_passage_with_placeholder_def placeholders count_py_def
      replace_def)

section \<open>The quiz\<close>

text \<open>
  Claim C8. When the request for the passage raises, or its text is empty after
  stripping, \<open>create_quiz\<close> returns the triple of the empty passage, no items and the empty
  masked passage, and the request for the passage is the only call of the model.
\<close>

theorem empty_quiz_sentinel:
  assumes "llm e (length log) (response_prompt prompt) = None
           \<or> (\<exists>t. llm e (length log) (response_prompt prompt) = Some t \<and> strip t = [])"
  shows "create_quiz e prompt log = (Inr ([], [], []), log @ [response_prompt prompt])"
proof -
  have "passage_at e (length log) prompt = []"
    using assms by (auto simp: passage_at_def)
  then show ?thesis by (rule create_quiz_empty)
qed

text \<open>The sentinel for a model that raises on every call.\<close>

theorem empty_quiz_sentinel_witness:
  "llm e_down (length ([]::llm_log)) (response_prompt tea_topic) = None
   \<and> create_quiz e_down tea_topic [] = (Inr ([], [], []), [response_prompt tea_topic])"
proof -
  have h: "llm e_down (length ([]::llm_log)) (response_prompt tea_topic) = None"
    by (simp add: e_down_def)
  then show ?thesis using empty_quiz_sentinel [of e_down "[]" tea_topic] by simp
qed

text \<open>
  Claim C10. When the passage is not empty and the selection yields no morpheme,
  \<open>create_quiz\<close> returns the passage, no items and the passage itself as masked passage,
  and the request for the passage is the only call of the model.
\<close>

theorem no_morphemes_quiz:
  assumes "generate_chinese_response e prompt log = (response, log1)"
    and "response \<noteq> []"
    and "extract_morphemes e response 10 = Inr []"
  shows "create_quiz e prompt log = (Inr (response, [], response), log1)
         \<and> log1 = log @ [response_prompt prompt]"
  using assms by (simp add: create_quiz_def generate_chinese_response_eq)

text \<open>The quiz of a passage whose annotation has no token.\<close>

theorem no_morphemes_quiz_witness:
  "generate_chinese_response e_plain tea_topic [] = (tea_passage, [response_prompt tea_topic])
   \<and> tea_passage \<noteq> []
   \<and> extract_morphemes e_plain tea_passage 10 = Inr []
   \<and> create_quiz e_plain tea_topic []
       = (Inr (tea_passage, [], tea_passage), [response_prompt tea_topic])"
proof -
  have a: "generate_chinese_response e_plain tea_topic []
             = (tea_passage, [response_prompt tea_topic])"
    by (simp add: generate_chinese_response_eq passage_at_def e_plain_def strip_tea)
  have b: "tea_passage \<noteq> []" by (simp add: tea_passage_def)
  have c: "extract_morphemes e_plain tea_passage 10 = Inr []"
    by (simp add: extract_morphemes_def e_plain_def select_morphemes_def ranked_morphemes_def
        sort_reverse_def filter_stage_def)
  from no_morphemes_quiz [OF a b c] a b c show ?thesis by simp
qed

lemma create_quiz_total: "\<exists>q log'. create_quiz e prompt log = (Inr q, log')"
  using create_quiz_cases [of e log prompt] by auto

text \<open>
  Claim C6, as the code has it. \<open>create_quiz\<close> never ends in an error. For a passage that
  is not empty, every selected morpheme gets its distractor request, whatever the earlier
  requests returned, and the items are those of the morphemes whose request yielded at
  least one alternative: every item has alternatives, and a morpheme whose request
  raises contributes no item.
\<close>

theorem distractor_failure_recovery:
  "(\<exists>q log'. create_quiz e prompt log = (Inr q, log'))
   \<and> (create_quiz e prompt log = (Inr (response, quiz_items, masked_text), log')
        \<and> response \<noteq> [] \<longrightarrow>
        (\<exists>ms. extract_morphemes e response 10 = Inr ms
           \<and> log' = log @ [response_prompt prompt] @ map alternatives_prompt ms
           \<and> quiz_items = items_from e (Suc (length log)) ms
           \<and> (\<forall>it \<in> set quiz_items. alternatives it \<noteq> [])))
   \<and> (llm e k (alternatives_prompt m) = None \<longrightarrow>
        items_from e k (m # rest) = items_from e (Suc k) rest)"
proof -
  have a: "\<exists>q log'. create_quiz e prompt log = (Inr q, log')" by (rule create_quiz_total)
  have b: "create_quiz e prompt log = (Inr (response, quiz_items, masked_text), log')
        \<and> response \<noteq> [] \<longrightarrow>
        (\<exists>ms. extract_morphemes e response 10 = Inr ms
           \<and> log' = log @ [response_prompt prompt] @ map alternatives_prompt ms
           \<and> quiz_items = items_from e (Suc (length log)) ms
           \<and> (\<forall>it \<in> set quiz_items. alternatives it \<noteq> []))"
    using create_quiz_masked [of e prompt log response quiz_items masked_text log']
      items_from_nonempty by blast
  have c: "llm e k (alternatives_prompt m) = None \<longrightarrow>
        items_from e k (m # rest) = items_from e (Suc k) rest"
    by (simp add: alternatives_at_def)
  from a b c show ?thesis by blast
qed

text \<open>The recovery for a model that raises on every distractor request.\<close>

theorem distractor_failure_recovery_witness:
  "create_quiz e_fail tea_topic []
     = (Inr (tea_passage, [],
             [32, 40, 48, 41, 32, 26159, 19968, 31181, 20256, 32479, 25991, 21270, 12290,
              32, 40, 48, 41, 32, 27880, 37325, 32, 40, 49, 41, 32, 12290]),
        [response_prompt tea_topic, alternatives_prompt [33590, 36947],
         alternatives_prompt [31036, 20202]])
   \<and> tea_passage \<noteq> []
   \<and> llm e_fail 1 (alternatives_prompt [33590, 36947]) = None
   \<and> (\<exists>ms. extract_morphemes e_fail tea_passage 10 = Inr ms
         \<and> [response_prompt tea_topic, alternatives_prompt [33590, 36947],
             alternatives_prompt [31036, 20202]]
            = [] @ [response_prompt tea_topic] @ map alternatives_prompt ms
         \<and> [] = items_from e_fail (Suc (length ([]::llm_log))) ms)
   \<and> items_from e_fail 1 [[33590, 36947], [31036, 20202]] = items_from e_fail (Suc 1) [[31036, 20202]]"
proof -
  have n: "tea_passage \<noteq> []" by (simp add: tea_passage_def)
  have f: "llm e_fail 1 (alternatives_prompt [33590, 36947]) = None"
    by (simp add: e_fail_def)
  note w = distractor_failure_recovery [of e_fail tea_topic "[]" tea_passage "[]" _ _ 1
      "[33590, 36947]" "[[31036, 20202]]"]
  show ?thesis using w run_e_fail n f by blast
qed

text \<open>
  Claim C6 as stated fails. When both distractor requests raise, the quiz has no item at
  all: no item with an empty list of alternatives is produced.
\<close>

theorem distractor_failure_counterexample:
  "llm e_fail 1 (alternatives_prompt [33590, 36947]) = None
   \<and> llm e_fail 2 (alternatives_prompt [31036, 20202]) = None
   \<and> create_quiz e_fail tea_topic []
     = (Inr (tea_passage, [],
             [32, 40, 48, 41, 32, 26159, 19968, 31181, 20256, 32479, 25991, 21270, 12290,
              32, 40, 48, 41, 32, 27880, 37325, 32, 40, 49, 41, 32, 12290]),
        [response_prompt tea_topic, alternatives_prompt [33590, 36947],
         alternatives_prompt [31036, 20202]])"
  using run_e_fail by (simp add: e_fail_def)

text \<open>
  Claim C7, as the code has it. The alternatives of every item of a quiz are the first
  fields, at least one and at most three, of the text the model returned for the item's
  morpheme, split at the bar and stripped. Nothing removes the morpheme itself from them.
\<close>

theorem alternatives_from_oracle:
  assumes "create_quiz e prompt log = (Inr (response, quiz_items, masked_text), log')"
    and "it \<in> set quiz_items"
  shows "\<exists>k t. llm e k (alternatives_prompt (original_morpheme it)) = Some t
           \<and> alternatives it = map strip (take 3 (split_sep 124 (strip t)))
           \<and> 1 \<le> length (alternatives it) \<and> length (alternatives it) \<le> 3"
proof -
  have "response \<noteq> []"
    using create_quiz_cases [of e log prompt] assms by auto
  from create_quiz_masked [OF assms(1) this] obtain ms where
    ms: "quiz_items = items_from e (Suc (length log)) ms" by blast
  with assms(2) have it: "it \<in> set (items_from e (Suc (length log)) ms)" by simp
  from items_from_source [OF it] obtain j where
    j: "original_morpheme it = ms ! j"
       "alternatives it = alternatives_at e (Suc (length log) + j) (ms ! j)" by blast
  have ne: "alternatives it \<noteq> []" using it by (rule items_from_nonempty)
  with j alternatives_at_cases [of e "Suc (length log) + j" "ms ! j"] obtain t where
    t: "llm e (Suc (length log) + j) (alternatives_prompt (ms ! j)) = Some t"
       "alternatives_at e (Suc (length log) + j) (ms ! j)
          = map strip (take 3 (split_sep 124 (strip t)))" by auto
  have "length (alternatives it) \<le> 3" using j(2) alternatives_at_length by simp
  moreover have "1 \<le> length (alternatives it)" using ne by (cases "alternatives it") auto
  ultimately show ?thesis using j t by auto
qed

lemma run_e_echo:
  "create_quiz e_echo tea_topic []
     = (Inr (tea_passage,
             [\<lparr>original_morpheme = [33590, 36947],
               alternatives = [[33590, 36947], [33590, 21494], [33590, 26479]]\<rparr>],
             [32, 40, 48, 41, 32, 26159, 19968, 31181, 20256, 32479, 25991, 21270, 12290,
              32, 40, 48, 41, 32, 27880, 37325, 31036, 20202, 12290]),
        [response_prompt tea_topic, alternatives_prompt [33590, 36947]])"
proof -
  have p: "passage_at e_echo (length ([]::llm_log)) tea_topic = tea_passage"
    by (simp add: passage_at_def e_echo_def strip_tea)
  have n: "tea_passage \<noteq> []" by (simp add: tea_passage_def)
  have m: "extract_morphemes e_echo tea_passage 10 = Inr [[33590, 36947]]"
    by (simp add: extract_morphemes_def e_echo_def select_morphemes_def ranked_morphemes_def
        sort_reverse_def filter_stage_def filter_step_def noun_subject_def mk_compound_def)
  show ?thesis
    unfolding create_quiz_run [OF p n m]
    by (simp add: alternatives_at_def e_echo_def strip_def py_isspace_def tea_passage_def
        replace_def placeholders)
qed

text \<open>
  Claim C7 as stated fails. When the model answers with the morpheme itself as first
  field, the item's alternatives contain its original morpheme.
\<close>

theorem alternatives_counterexample:
  "create_quiz e_echo tea_topic []
     = (Inr (tea_passage,
             [\<lparr>original_morpheme = [33590, 36947],
               alternatives = [[33590, 36947], [33590, 21494], [33590, 26479]]\<rparr>],
             [32, 40, 48, 41, 32, 26159, 19968, 31181, 20256, 32479, 25991, 21270, 12290,
              32, 40, 48, 41, 32, 27880, 37325, 31036, 20202, 12290]),
        [response_prompt tea_topic, alternatives_prompt [33590, 36947]])
   \<and> [33590, 36947] \<in> set [[33590, 36947], [33590, 21494], [33590, 26479 :: nat]]"
  using run_e_echo by simp

text \<open>The alternatives of the item of that quiz are the fields of the model's answer.\<close>

theorem alternatives_from_oracle_witness:
  "create_quiz e_echo tea_topic []
     = (Inr (tea_passage,
             [\<lparr>original_morpheme = [33590, 36947],
               alternatives = [[33590, 36947], [33590, 21494], [33590, 26479]]\<rparr>],
             [32, 40, 48, 41, 32, 26159, 19968, 31181, 20256, 32479, 25991, 21270, 12290,
              32, 40, 48, 41, 32, 27880, 37325, 31036, 20202, 12290]),
        [response_prompt tea_topic, alternatives_prompt [33590, 36947]])
   \<and> (\<exists>k t. llm e_echo k (alternatives_prompt [33590, 36947]) = Some t
         \<and> [[33590, 36947], [33590, 21494], [33590, 26479]]
            = map strip (take 3 (split_sep 124 (strip t))))"
proof -
  let ?it = "\<lparr>original_morpheme = [33590, 36947],
               alternatives = [[33590, 36947], [33590, 21494], [33590, 26479]]\<rparr>"
  have "?it \<in> set [?it]" by simp
  from alternatives_from_oracle [OF run_e_echo this] run_e_echo show ?thesis by auto
qed

text \<open>
  Claim C2 against the code. The model raises on the distractor request for the first
  morpheme and answers the second. Both morphemes are masked, with the labels 0 and 1, but
  the quiz has a single item, at index 0, and it belongs to the morpheme masked with
  label 1: the blank 0 has no item.
\<close>

theorem unanswerable_blank:
  "create_quiz e_first_fails tea_topic []
     = (Inr (tea_passage,
             [\<lparr>original_morpheme = [31036, 20202],
               alternatives = [[31036, 33410], [31036, 35980], [31036, 29289]]\<rparr>],
             [32, 40, 48, 41, 32, 26159, 19968, 31181, 20256, 32479, 25991, 21270, 12290,
              32, 40, 48, 41, 32, 27880, 37325, 32, 40, 49, 41, 32, 12290]),
        [response_prompt tea_topic, alternatives_prompt [33590, 36947],
         alternatives_prompt [31036, 20202]])"
proof -
  have p: "passage_at e_first_fails (length ([]::llm_log)) tea_topic = tea_passage"
    by (simp add: passage_at_def e_first_fails_def strip_tea)
  have n: "tea_passage \<noteq> []" by (simp add: tea_passage_def)
  have m: "extract_morphemes e_first_fails tea_passage 10
             = Inr [[33590, 36947], [31036, 20202]]"
    by (simp add: extract_morphemes_def e_first_fails_def tea_morphemes)
  show ?thesis
    unfolding create_quiz_run [OF p n m] tea_masked
    by (simp add: alternatives_at_def e_first_fails_def strip_def py_isspace_def)
qed

section \<open>The shuffler\<close>

lemma shuffle_loop_length: "length (shuffle_loop rnd d i x) = length x"
  by (induction i arbitrary: d x) (simp_all add: Let_def)

lemma shuffle_loop_mset:
  "i < length x \<or> i = 0 \<Longrightarrow> mset (shuffle_loop rnd d i x) = mset x"
proof (induction i arbitrary: d x)
  case 0
  show ?case by simp
next
  case (Suc i)
  let ?j = "rnd d mod (Suc i + 1)"
  let ?x = "x[Suc i := x ! ?j, ?j := x ! Suc i]"
  have i: "Suc i < length x" using Suc.prems by simp
  have "?j < Suc i + 1" by simp
  with i have j: "?j < length x" by linarith
  have "mset (shuffle_loop rnd (Suc d) i ?x) = mset ?x"
    using i by (intro Suc.IH) simp
  also have "\<dots> = mset x" using i j by (simp add: mset_swap)
  finally show ?case by (simp add: Let_def)
qed

lemma shuffle_mset: "mset (shuffle rnd x) = mset x"
  by (cases x) (simp_all add: shuffle_def shuffle_loop_mset)

text \<open>
  Claim C9. For an item whose list of alternatives is allocated in the store, \<open>present\<close>
  returns a list with the same elements, as a multiset, as the alternatives together
  with the original morpheme; afterwards the item's list of alternatives, like every list
  that was allocated before, is what it was.
\<close>

theorem shuffler_law:
  assumes "cells h (ref_alternatives item) = Some alts" "ref_alternatives item < lim h"
  shows "\<exists>answers h'. present rnd item h = Some (answers, h')
           \<and> mset answers = mset alts + {#ref_original_morpheme item#}
           \<and> cells h' (ref_alternatives item) = Some alts
           \<and> (\<forall>a. a < lim h \<longrightarrow> cells h' a = cells h a)"
  using assms
  by (simp add: present_def list_add_def random_shuffle_def shuffle_mset)

text \<open>The answers of an item with three alternatives.\<close>

theorem shuffler_law_witness:
  "cells tea_store (ref_alternatives tea_item)
     = Some [[33590, 33402], [33590, 21494], [33590, 26479]]
   \<and> ref_alternatives tea_item < lim tea_store
   \<and> (\<exists>answers h'. present (\<lambda>i. i) tea_item tea_store = Some (answers, h')
         \<and> mset answers = {#[33590, 33402], [33590, 21494], [33590, 26479], [33590, 36947]#}
         \<and> cells h' 0 = Some [[33590, 33402], [33590, 21494], [33590, 26479]])"
proof -
  have a: "cells tea_store (ref_alternatives tea_item)
             = Some [[33590, 33402], [33590, 21494], [33590, 26479]]"
    by (simp add: tea_store_def tea_item_def)
  have b: "ref_alternatives tea_item < lim tea_store"
    by (simp add: tea_store_def tea_item_def)
  from shuffler_law [OF a b, of "\<lambda>i. i"] obtain answers h' where
    "present (\<lambda>i. i) tea_item tea_store = Some (answers, h')"
    "mset answers = mset [[33590, 33402], [33590, 21494], [33590, 26479]]
        + {#ref_original_morpheme tea_item#}"
    "cells h' (ref_alternatives tea_item)
       = Some [[33590, 33402], [33590, 21494], [33590, 26479]]"
    by blast
  then have "present (\<lambda>i. i) tea_item tea_store = Some (answers, h')
         \<and> mset answers = {#[33590, 33402], [33590, 21494], [33590, 26479], [33590, 36947]#}
         \<and> cells h' 0 = Some [[33590, 33402], [33590, 21494], [33590, 26479]]"
    by (simp add: tea_item_def)
  with a b show ?thesis by blast
qed

end
